theory Spec2Isabelle
  imports Main
begin

section \<open>Messages, errors and endpoint phases\<close>

text \<open>
  Modelled from the spec: the Message of the data model (the classes
  \<open>deproxy.Request\<close> and \<open>deproxy.Response\<close> live in \<open>helpers/deproxy.py\<close>, which
  is not part of the sources at hand). The client code reads two attributes of a message:
  \<open>request.method\<close> (the field \<open>req_method\<close> here) and \<open>response.msg\<close>, the text of
  the message, whose length is the number of bytes the message took from the buffer. For a
  response, \<open>target\<close> holds the status code and \<open>req_method\<close> the method of the request
  it answers.
\<close>

record message =
  req_method :: string
  target :: string
  version :: string
  headers :: "(string \<times> string) list"
  body :: string
  msg :: string

text \<open>
  The exceptions the client code names or can provoke: \<open>deproxy.IncompliteMessage\<close>,
  \<open>deproxy.ParseError\<close> (with its text), and the \<open>AttributeError\<close> of reading
  \<open>self.request.method\<close> when no request has been made.
\<close>

datatype error = IncompliteMessage | ParseError string | AttributeError

text \<open>
  Modelled from the spec: the phases of the connection state tracker (the module
  \<open>helpers/stateful.py\<close> with \<open>STATE_STARTED\<close> is not part of the sources at hand).
\<close>

datatype phase = Idle | Started | Stopped

section \<open>The client objects\<close>

text \<open>
  The attributes of one client instance. \<open>last_response\<close> and \<open>nr\<close> start from the
  class-level defaults \<open>None\<close> and \<open>0\<close> and become instance attributes on their first
  assignment (\<open>self.last_response = ...\<close>, \<open>self.nr = ...\<close>).
\<close>

record client =
  state :: phase
  request :: "message option"
  request_buffer :: string
  response_buffer :: string
  last_response :: "message option"
  nr :: nat

text \<open>
  The store. \<open>responses = []\<close> in the body of class \<open>DeproxyClient\<close> creates one list
  object, bound to the class; no statement of the source assigns \<open>self.responses\<close>, so
  for every instance \<open>self.responses\<close> is that one list and \<open>append\<close> mutates it in
  place. Instances are addressed by a number.
\<close>

record heap =
  responses :: "message list"
  objs :: "nat \<Rightarrow> client"

text \<open>
  Modelled from the spec: a client as it is created. \<open>last_response = None\<close> and
  \<open>nr = 0\<close> are the class attributes of the source; the phase before \<open>start\<close>, the
  absent request and the empty buffers are set by \<open>deproxy.Client\<close>, which is not part of
  the sources at hand.
\<close>

definition new_client :: client where
  "new_client = \<lparr>state = Idle, request = None, request_buffer = [], response_buffer = [],
     last_response = None, nr = 0\<rparr>"

definition new_heap :: heap where
  "new_heap = \<lparr>responses = [], objs = (\<lambda>_. new_client)\<rparr>"

definition upd :: "heap \<Rightarrow> nat \<Rightarrow> (client \<Rightarrow> client) \<Rightarrow> heap" where
  "upd h self f = h\<lparr>objs := (objs h)(self := f (objs h self))\<rparr>"

text \<open>Modelled from the spec: the transitions \<open>start\<close> and \<open>stop\<close> of the connection state
  tracker, as far as the client code reads them: they set the phase.\<close>

definition start :: "heap \<Rightarrow> nat \<Rightarrow> heap" where
  "start h self = upd h self (\<lambda>c. c\<lparr>state := Started\<rparr>)"

definition stop :: "heap \<Rightarrow> nat \<Rightarrow> heap" where
  "stop h self = upd h self (\<lambda>c. c\<lparr>state := Stopped\<rparr>)"

subsection \<open>DeproxyClient.recieve\_response\<close>

definition recieve_response :: "heap \<Rightarrow> nat \<Rightarrow> message \<Rightarrow> heap" where
  "recieve_response h self response =
     upd (h\<lparr>responses := responses h @ [response]\<rparr>) self
       (\<lambda>c. c\<lparr>last_response := Some response\<rparr>)"

subsection \<open>BaseDeproxyClient.handle\_read\<close>

definition garbage_text :: "string \<Rightarrow> string" where
  "garbage_text buf =
     ''Garbage after response end:'' @ [CHR 0x0A] @ ''```'' @ [CHR 0x0A] @ buf
       @ [CHR 0x0A] @ ''```'' @ [CHR 0x0A]"

text \<open>
  \<open>Response buf m\<close> stands for \<open>deproxy.Response(buf, method=m)\<close>: it returns the
  response or raises. \<open>data\<close> is what \<open>self.recv(deproxy.MAX_MESSAGE_SIZE)\<close> returned.
  An exception leaves the assignments made before it in place, so the store is returned
  in every case, beside the exception or \<open>Inr ()\<close>.
\<close>

definition handle_read ::
    "(string \<Rightarrow> string \<Rightarrow> error + message) \<Rightarrow> heap \<Rightarrow> nat \<Rightarrow> string \<Rightarrow> heap \<times> (error + unit)" where
  "handle_read Response h self data =
     (let buf = response_buffer (objs h self) @ data;
          h1 = upd h self (\<lambda>c. c\<lparr>response_buffer := buf\<rparr>)
      in if buf = [] then (h1, Inr ())
         else (case request (objs h1 self) of
             None \<Rightarrow> (h1, Inl AttributeError)
           | Some rq \<Rightarrow>
              (case Response buf (req_method rq) of
                 Inl IncompliteMessage \<Rightarrow> (h1, Inr ())
               | Inl e \<Rightarrow> (h1, Inl e)
               | Inr response \<Rightarrow>
                  (let rest = drop (length (msg response)) buf;
                       h2 = upd h1 self (\<lambda>c. c\<lparr>response_buffer := rest\<rparr>)
                   in if length rest > 0 then (h2, Inl (ParseError (garbage_text rest)))
                      else (upd (recieve_response h2 self response) self
                              (\<lambda>c. c\<lparr>response_buffer := []\<rparr>), Inr ())))))"

text \<open>Feeding the fragments of a byte stream: one \<open>handle_read\<close> per fragment, stopping at
  the first exception as the caller of the event loop sees it.\<close>

fun handle_reads ::
    "(string \<Rightarrow> string \<Rightarrow> error + message) \<Rightarrow> heap \<Rightarrow> nat \<Rightarrow> string list \<Rightarrow> heap \<times> (error + unit)" where
  "handle_reads Response h self [] = (h, Inr ())"
| "handle_reads Response h self (d # ds) =
     (case handle_read Response h self d of
        (h', Inl e) \<Rightarrow> (h', Inl e)
      | (h', Inr _) \<Rightarrow> handle_reads Response h' self ds)"

subsection \<open>writable and make\_request\<close>

definition writable :: "heap \<Rightarrow> nat \<Rightarrow> bool" where
  "writable h self = (length (request_buffer (objs h self)) > 0)"

text \<open>\<open>Request text\<close> stands for \<open>deproxy.Request(text)\<close>, which returns the request or
  raises.\<close>

definition base_make_request ::
    "(string \<Rightarrow> error + message) \<Rightarrow> heap \<Rightarrow> nat \<Rightarrow> string \<Rightarrow> heap \<times> (error + unit)" where
  "base_make_request Request h self text =
     (case Request text of
        Inl e \<Rightarrow> (h, Inl e)
      | Inr rq \<Rightarrow> (upd h self (\<lambda>c. c\<lparr>request := Some rq, request_buffer := text\<rparr>), Inr ()))"

definition make_request ::
    "(string \<Rightarrow> error + message) \<Rightarrow> heap \<Rightarrow> nat \<Rightarrow> string \<Rightarrow> heap \<times> (error + unit)" where
  "make_request Request h self text =
     base_make_request Request (upd h self (\<lambda>c. c\<lparr>nr := length (responses h)\<rparr>)) self text"

subsection \<open>DeproxyClient.wait\_for\_response\<close>

text \<open>
  The calling thread polls while the event loop changes the store. Each element of
  \<open>polls\<close> is what one evaluation of the loop test finds: the store at that moment and the
  reading \<open>time.time()\<close> gives right after it (read only when the test holds). \<open>t0\<close> is
  the reading taken before the loop. The clock is any type with a subtraction and an order;
  nothing is assumed of them. The function writes nothing; it returns its boolean, the
  number of \<open>time.sleep(0.01)\<close> calls made, and the store it last looked at. A list of
  polls that ends before the loop does gives \<open>None\<close>.
\<close>

fun wait_loop ::
    "nat \<Rightarrow> 't::{minus,ord} \<Rightarrow> 't \<Rightarrow> (heap \<times> 't) list \<Rightarrow> nat \<Rightarrow> (bool \<times> nat \<times> heap) option" where
  "wait_loop self timeout t0 [] sleeps = None"
| "wait_loop self timeout t0 ((h, t) # polls) sleeps =
     (if length (responses h) = nr (objs h self)
      then (if t - t0 > timeout then Some (False, sleeps, h)
            else wait_loop self timeout t0 polls (Suc sleeps))
      else Some (True, sleeps, h))"

definition wait_for_response ::
    "heap \<Rightarrow> nat \<Rightarrow> 't::{minus,ord} \<Rightarrow> 't \<Rightarrow> (heap \<times> 't) list \<Rightarrow> (bool \<times> nat \<times> heap) option" where
  "wait_for_response h self timeout t0 polls =
     (if state (objs h self) \<noteq> Started then Some (False, 0, h)
      else wait_loop self timeout t0 polls 0)"

text \<open>A poll that lets the loop go on: the count of responses equals \<open>self.nr\<close> and the
  clock reading is not past the timeout.\<close>

definition quiet :: "nat \<Rightarrow> 't::{minus,ord} \<Rightarrow> 't \<Rightarrow> heap \<times> 't \<Rightarrow> bool" where
  "quiet self timeout t0 p =
     (length (responses (fst p)) = nr (objs (fst p) self) \<and> \<not> snd p - t0 > timeout)"

section \<open>The chunked construction of the tests\<close>

text \<open>\<open>sep.join(xs)\<close> of Python.\<close>

fun join :: "string \<Rightarrow> string list \<Rightarrow> string" where
  "join sep [] = []"
| "join sep [x] = x"
| "join sep (x # y # ys) = x @ sep @ join sep (y # ys)"

definition hex_digit :: "nat \<Rightarrow> char" where
  "hex_digit d = ''0123456789ABCDEF'' ! d"

text \<open>\<open>"%X" % n\<close>: upper-case hexadecimal, no prefix, \<open>0\<close> for zero.\<close>

fun to_hex :: "nat \<Rightarrow> string" where
  "to_hex n = (if n < 16 then [hex_digit n] else to_hex (n div 16) @ [hex_digit (n mod 16)])"

declare to_hex.simps [simp del]

text \<open>\<open>TestTransformPayload.make_body\<close>:
  \<open>''.join([chr(i % 26 + ord('a')) for i in range(body_len)])\<close>.\<close>

definition make_body :: "nat \<Rightarrow> string" where
  "make_body body_len = map (\<lambda>i. char_of (i mod 26 + of_char (CHR ''a'') :: nat)) [0..<body_len]"

text \<open>The \<open>chunked_body\<close> that \<open>TestTransformPayload.make_chain\<close> builds for the response
  the client is to receive.\<close>

definition chunked_body :: "string \<Rightarrow> string" where
  "chunked_body payload =
     (if payload \<noteq> [] then
        join [CHR 0x0D, CHR 0x0A] [to_hex (length payload), payload, ''0'', [], []]
      else join [CHR 0x0D, CHR 0x0A] [''0'', [], []])"

section \<open>The incremental parser\<close>

text \<open>
  Modelled from the spec: the incremental parser of section 4.1 (the parser itself is in
  \<open>helpers/deproxy.py\<close>, which is not part of the sources at hand). Every definition of
  this section is part of that model. A stage of the parser works on the unread part of
  the buffer and either needs more bytes, fails with a reason, or yields a value and the
  bytes it left.
\<close>

datatype 'a stage = More | Bad string | Got 'a string

text \<open>Modelled from the spec: the ParseResult of the data model.\<close>

datatype parse_result = Incomplete | Complete message nat | Malformed string

text \<open>Modelled from the spec: a line of the message, for the start line, the header
  lines and the chunk-size lines. The bytes up to the first CRLF, and the bytes after it.\<close>

fun read_line :: "string \<Rightarrow> (string \<times> string) option" where
  "read_line (c # d # cs) =
     (if c = CHR 0x0D \<and> d = CHR 0x0A then Some ([], cs)
      else (case read_line (d # cs) of None \<Rightarrow> None | Some (l, r) \<Rightarrow> Some (c # l, r)))"
| "read_line cs = None"

text \<open>Modelled from the spec: the CRLF that the chunked decoding consumes after the bytes
  of a chunk and after the chunk of size zero.\<close>

fun expect_crlf :: "string \<Rightarrow> unit stage" where
  "expect_crlf [] = More"
| "expect_crlf [c] = (if c = CHR 0x0D then More else Bad ''bad chunk syntax'')"
| "expect_crlf (c # d # cs) =
     (if c = CHR 0x0D \<and> d = CHR 0x0A then Got () cs else Bad ''bad chunk syntax'')"

subsection \<open>Character classes and numbers\<close>

text \<open>Modelled from the spec: the character classes of the minimal grammar of the start
  line and of the header names.\<close>

definition is_digit :: "char \<Rightarrow> bool" where
  "is_digit c = (c \<in> set ''0123456789'')"

text \<open>Modelled from the spec: the letters.\<close>

definition is_alpha :: "char \<Rightarrow> bool" where
  "is_alpha c = (c \<in> set ''ABCDEFGHIJKLMNOPQRSTUVWXYZabcdefghijklmnopqrstuvwxyz'')"

text \<open>Modelled from the spec: the characters permitted in a method token, those of a token
  of RFC 7230; the quote and the backquote by their codes. The tab, the line feed and the
  space are not among them.\<close>

definition is_tchar :: "char \<Rightarrow> bool" where
  "is_tchar c = (is_digit c \<or> is_alpha c \<or> c \<in> set ''!#$%&*+-.^_|~''
     \<or> c = CHR 0x27 \<or> c = CHR 0x60)"

text \<open>Modelled from the spec: a token is not empty and holds token characters only.\<close>

definition is_token :: "string \<Rightarrow> bool" where
  "is_token s = (s \<noteq> [] \<and> list_all is_tchar s)"

text \<open>Modelled from the spec: the optional white space around a header value.\<close>

definition is_ows :: "char \<Rightarrow> bool" where
  "is_ows c = (c = CHR '' '' \<or> c = CHR 0x09)"

text \<open>Modelled from the spec: the visible characters, of which a request target is made.\<close>

definition is_visible :: "char \<Rightarrow> bool" where
  "is_visible c = (32 < (of_char c :: nat) \<and> (of_char c :: nat) < 127)"

text \<open>Modelled from the spec: lower case, for the case-insensitive matching of header
  names.\<close>

definition lower :: "char \<Rightarrow> char" where
  "lower c = (case map_of (zip ''ABCDEFGHIJKLMNOPQRSTUVWXYZ'' ''abcdefghijklmnopqrstuvwxyz'') c of
       None \<Rightarrow> c | Some d \<Rightarrow> d)"

text \<open>Modelled from the spec: the value of a digit of a chunk-size line or of a content
  length.\<close>

definition hex_val :: "char \<Rightarrow> nat option" where
  "hex_val c = map_of (zip ''0123456789ABCDEFabcdef''
       [0, 1, 2, 3, 4, 5, 6, 7, 8, 9, 10, 11, 12, 13, 14, 15, 10, 11, 12, 13, 14, 15]) c"

text \<open>Modelled from the spec: reading a number in a base; any other character fails.\<close>

fun number_acc :: "nat \<Rightarrow> nat \<Rightarrow> string \<Rightarrow> nat option" where
  "number_acc base acc [] = Some acc"
| "number_acc base acc (c # cs) =
     (case hex_val c of
        None \<Rightarrow> None
      | Some v \<Rightarrow> if v < base then number_acc base (acc * base + v) cs else None)"

text \<open>Modelled from the spec: the chunk-size line, hexadecimal digits and nothing else.\<close>

definition parse_hex :: "string \<Rightarrow> nat option" where
  "parse_hex s = (if s = [] then None else number_acc 16 0 s)"

text \<open>Modelled from the spec: the value of Content-Length, decimal digits and nothing
  else.\<close>

definition parse_dec :: "string \<Rightarrow> nat option" where
  "parse_dec s = (if s = [] then None else number_acc 10 0 s)"

text \<open>Modelled from the spec: a header value without the white space around it.\<close>

definition trim :: "string \<Rightarrow> string" where
  "trim s = rev (dropWhile is_ows (rev (dropWhile is_ows s)))"

subsection \<open>Start lines\<close>

text \<open>Modelled from the spec: the fields of a start line, between single spaces.\<close>

fun fields :: "string \<Rightarrow> string list" where
  "fields [] = [[]]"
| "fields (c # cs) =
     (if c = CHR '' '' then [] # fields cs
      else (case fields cs of [] \<Rightarrow> [[c]] | f # fs \<Rightarrow> (c # f) # fs))"

text \<open>Modelled from the spec: the versions of HTTP/1.x.\<close>

definition is_version :: "string \<Rightarrow> bool" where
  "is_version v = (v = ''HTTP/1.1'' \<or> v = ''HTTP/1.0'')"

text \<open>Modelled from the spec: the request line, a method token, a target of visible
  characters and the version,
  one space between them.\<close>

definition request_line :: "string \<Rightarrow> (string \<times> string \<times> string) option" where
  "request_line l =
     (case fields l of
        [m, t, v] \<Rightarrow>
          if is_token m \<and> t \<noteq> [] \<and> list_all is_visible t \<and> is_version v then Some (m, t, v)
          else None
      | _ \<Rightarrow> None)"

text \<open>Modelled from the spec: the status line, the version, a status code of three digits,
  and a reason phrase that
  may hold spaces.\<close>

definition status_line :: "string \<Rightarrow> (string \<times> string) option" where
  "status_line l =
     (case fields l of
        v # code # reason \<Rightarrow>
          if is_version v \<and> length code = 3 \<and> list_all is_digit code then Some (v, code)
          else None
      | _ \<Rightarrow> None)"

subsection \<open>Headers\<close>

text \<open>Modelled from the spec: a header line, a name that is a token, a colon and the
  value.\<close>

definition header_line :: "string \<Rightarrow> (string \<times> string) option" where
  "header_line l =
     (let name = takeWhile (\<lambda>c. c \<noteq> CHR '':'') l;
          rest = dropWhile (\<lambda>c. c \<noteq> CHR '':'') l
      in if rest = [] then None
         else if is_token name then Some (name, trim (tl rest))
         else None)"

text \<open>Modelled from the spec: the lookup of a header, case-insensitive in the name; the
  first header of that name counts.\<close>

fun header_value :: "string \<Rightarrow> (string \<times> string) list \<Rightarrow> string option" where
  "header_value name [] = None"
| "header_value name ((k, v) # hs) =
     (if map lower k = map lower name then Some v else header_value name hs)"

lemma read_line_shorter: "read_line buf = Some (l, r) \<Longrightarrow> length r < length buf"
  by (induction buf arbitrary: l rule: read_line.induct)
     (auto split: if_splits option.splits)

lemma expect_crlf_shorter: "expect_crlf buf = Got u r \<Longrightarrow> length r < length buf"
  by (induction buf rule: expect_crlf.induct) (auto split: if_splits)

text \<open>Modelled from the spec: the header block, header lines up to the empty line that
  ends it.\<close>

function read_headers :: "string \<Rightarrow> ((string \<times> string) list) stage" where
  "read_headers buf =
     (case read_line buf of
        None \<Rightarrow> More
      | Some (l, rest) \<Rightarrow>
          if l = [] then Got [] rest
          else (case header_line l of
                  None \<Rightarrow> Bad ''bad header''
                | Some h \<Rightarrow>
                   (case read_headers rest of
                      More \<Rightarrow> More
                    | Bad e \<Rightarrow> Bad e
                    | Got hs r \<Rightarrow> Got (h # hs) r)))"
  by pat_completeness auto
termination
  by (relation "measure length") (auto dest: read_line_shorter)

declare read_headers.simps [simp del]

subsection \<open>Bodies\<close>

text \<open>
  Modelled from the spec: chunked decoding, a chunk-size line in hexadecimal, exactly that many bytes, the CRLF
  after them, again until a chunk of size zero and the CRLF that ends the body. The value
  is the list of the chunks before the terminator.
\<close>

function read_chunks :: "string \<Rightarrow> (string list) stage" where
  "read_chunks buf =
     (case read_line buf of
        None \<Rightarrow> More
      | Some (l, rest) \<Rightarrow>
         (case parse_hex l of
            None \<Rightarrow> Bad ''bad chunk syntax''
          | Some n \<Rightarrow>
              if n = 0 then
                (case expect_crlf rest of
                   More \<Rightarrow> More
                 | Bad e \<Rightarrow> Bad e
                 | Got u r \<Rightarrow> Got [] r)
              else if length rest < n then More
              else (case expect_crlf (drop n rest) of
                      More \<Rightarrow> More
                    | Bad e \<Rightarrow> Bad e
                    | Got u r \<Rightarrow>
                       (case read_chunks r of
                          More \<Rightarrow> More
                        | Bad e \<Rightarrow> Bad e
                        | Got cs r' \<Rightarrow> Got (take n rest # cs) r'))))"
  by pat_completeness auto
termination
  by (relation "measure length") (auto dest!: read_line_shorter expect_crlf_shorter)

declare read_chunks.simps [simp del]

text \<open>
  Modelled from the spec: the framing of a message, chosen from the headers once they are
  read: chunked transfer encoding, else an explicit content length, else no body for a
  request, and for a response a body that ends when the peer closes.
\<close>

datatype framing = Chunked | ContentLength nat | CloseDelimited | NoBody | BadFraming string

definition framing_of :: "bool \<Rightarrow> (string \<times> string) list \<Rightarrow> framing" where
  "framing_of is_request hs =
     (case header_value ''Transfer-Encoding'' hs of
        Some v \<Rightarrow>
          if map lower v = ''chunked'' then Chunked else BadFraming ''bad transfer encoding''
      | None \<Rightarrow>
         (case header_value ''Content-Length'' hs of
            Some v \<Rightarrow>
              (case parse_dec v of
                 None \<Rightarrow> BadFraming ''bad content length''
               | Some n \<Rightarrow> ContentLength n)
          | None \<Rightarrow> if is_request then NoBody else CloseDelimited))"

text \<open>Modelled from the spec: the body, read as its framing says. A close-delimited body is
  never reported complete: the buffer alone does not say that the peer has closed.\<close>

definition read_body :: "bool \<Rightarrow> (string \<times> string) list \<Rightarrow> string \<Rightarrow> string stage" where
  "read_body is_request hs buf =
     (case framing_of is_request hs of
        Chunked \<Rightarrow>
          (case read_chunks buf of
             More \<Rightarrow> More
           | Bad e \<Rightarrow> Bad e
           | Got cs r \<Rightarrow> Got (concat cs) r)
      | ContentLength n \<Rightarrow> if length buf < n then More else Got (take n buf) (drop n buf)
      | CloseDelimited \<Rightarrow> More
      | NoBody \<Rightarrow> Got [] buf
      | BadFraming e \<Rightarrow> Bad e)"

subsection \<open>Whole messages\<close>

text \<open>Modelled from the spec: the parser on a buffer that starts with a request. The bytes
  consumed are those of the buffer that the last stage did not leave; the text of the
  message is those bytes.\<close>

definition parse_request :: "string \<Rightarrow> parse_result" where
  "parse_request buf =
     (case read_line buf of
        None \<Rightarrow> Incomplete
      | Some (l, rest) \<Rightarrow>
         (case request_line l of
            None \<Rightarrow> Malformed ''bad start line''
          | Some (m, t, v) \<Rightarrow>
             (case read_headers rest of
                More \<Rightarrow> Incomplete
              | Bad e \<Rightarrow> Malformed e
              | Got hs rest' \<Rightarrow>
                 (case read_body True hs rest' of
                    More \<Rightarrow> Incomplete
                  | Bad e \<Rightarrow> Malformed e
                  | Got b rest'' \<Rightarrow>
                     (let n = length buf - length rest''
                      in Complete \<lparr>req_method = m, target = t, version = v, headers = hs,
                                    body = b, msg = take n buf\<rparr> n)))))"

text \<open>Modelled from the spec: the parser on a buffer that starts with a response. \<open>m\<close> is
  the method of the request the response answers; the response carries it.\<close>

definition parse_response :: "string \<Rightarrow> string \<Rightarrow> parse_result" where
  "parse_response buf m =
     (case read_line buf of
        None \<Rightarrow> Incomplete
      | Some (l, rest) \<Rightarrow>
         (case status_line l of
            None \<Rightarrow> Malformed ''bad start line''
          | Some (v, code) \<Rightarrow>
             (case read_headers rest of
                More \<Rightarrow> Incomplete
              | Bad e \<Rightarrow> Malformed e
              | Got hs rest' \<Rightarrow>
                 (case read_body False hs rest' of
                    More \<Rightarrow> Incomplete
                  | Bad e \<Rightarrow> Malformed e
                  | Got b rest'' \<Rightarrow>
                     (let n = length buf - length rest''
                      in Complete \<lparr>req_method = m, target = code, version = v, headers = hs,
                                    body = b, msg = take n buf\<rparr> n)))))"

text \<open>Modelled from the spec: the parse result as the client code meets it, a message or
  the exception \<open>IncompliteMessage\<close> or \<open>ParseError\<close>.\<close>

definition raise_or_return :: "parse_result \<Rightarrow> error + message" where
  "raise_or_return r =
     (case r of
        Incomplete \<Rightarrow> Inl IncompliteMessage
      | Malformed e \<Rightarrow> Inl (ParseError e)
      | Complete m n \<Rightarrow> Inr m)"

text \<open>Modelled from the spec: \<open>deproxy.Request(text)\<close>.\<close>

definition Request :: "string \<Rightarrow> error + message" where
  "Request text = raise_or_return (parse_request text)"

text \<open>Modelled from the spec: \<open>deproxy.Response(buf, method=m)\<close>.\<close>

definition Response :: "string \<Rightarrow> string \<Rightarrow> error + message" where
  "Response buf m = raise_or_return (parse_response buf m)"

section \<open>Messages of the tests\<close>

text \<open>The two requests that \<open>MalformedRqLineTest.test_06_malformed_post_pipeline\<close> sends in
  one piece: a well-formed \<open>GET\<close>, then a request with a tab in its method.\<close>

definition test_06_first :: string where
  "test_06_first = ''GET /aaa HTTP/1.1'' @ [CHR 0x0D, CHR 0x0A] @ ''Host: localhost''
     @ [CHR 0x0D, CHR 0x0A, CHR 0x0D, CHR 0x0A]"

definition test_06_second :: string where
  "test_06_second = ''POS'' @ [CHR 0x09] @ ''T /bbb HTTP/1.1'' @ [CHR 0x0D, CHR 0x0A]
     @ ''Host: localhost'' @ [CHR 0x0D, CHR 0x0A, CHR 0x0D, CHR 0x0A]"

text \<open>A second well-formed request, the one the pipeline tests send after the first.\<close>

definition next_request_text :: string where
  "next_request_text = ''GET /bbb HTTP/1.1'' @ [CHR 0x0D, CHR 0x0A] @ ''Host: localhost''
     @ [CHR 0x0D, CHR 0x0A, CHR 0x0D, CHR 0x0A]"

definition next_request :: message where
  "next_request = \<lparr>req_method = ''GET'', target = ''/bbb'', version = ''HTTP/1.1'',
     headers = [(''Host'', ''localhost'')], body = [], msg = next_request_text\<rparr>"

definition first_request :: message where
  "first_request = \<lparr>req_method = ''GET'', target = ''/aaa'', version = ''HTTP/1.1'',
     headers = [(''Host'', ''localhost'')], body = [], msg = test_06_first\<rparr>"

text \<open>A response with an empty body, as the backend of the tests answers.\<close>

definition ok_response :: string where
  "ok_response = ''HTTP/1.1 200 OK'' @ [CHR 0x0D, CHR 0x0A] @ ''Content-Length: 0''
     @ [CHR 0x0D, CHR 0x0A, CHR 0x0D, CHR 0x0A]"

definition ok_message :: message where
  "ok_message = \<lparr>req_method = ''GET'', target = ''200'', version = ''HTTP/1.1'',
     headers = [(''Content-Length'', ''0'')], body = [], msg = ok_response\<rparr>"

text \<open>A started client that has made the first request and has read nothing yet.\<close>

definition ready :: heap where
  "ready = fst (make_request Request (start new_heap 0) 0 test_06_first)"

section \<open>Properties of the parser stages\<close>

lemma read_line_decomp: "read_line buf = Some (l, r) \<Longrightarrow> buf = l @ CHR 0x0D # CHR 0x0A # r"
  by (induction buf arbitrary: l rule: read_line.induct)
     (auto split: if_splits option.splits)

lemma read_line_append: "read_line buf = Some (l, r) \<Longrightarrow> read_line (buf @ x) = Some (l, r @ x)"
  by (induction buf arbitrary: l rule: read_line.induct)
     (auto split: if_splits option.splits)

lemma read_line_no_cr:
  "CHR 0x0D \<notin> set l \<Longrightarrow> read_line (l @ CHR 0x0D # CHR 0x0A # r) = Some (l, r)"
proof (induction l)
  case Nil
  show ?case by simp
next
  case (Cons c l)
  then show ?case by (cases "l @ CHR 0x0D # CHR 0x0A # r") auto
qed

lemma expect_crlf_Got: "expect_crlf buf = Got u r \<longleftrightarrow> buf = CHR 0x0D # CHR 0x0A # r"
  by (induction buf rule: expect_crlf.induct) auto

lemma read_headers_shorter: "read_headers buf = Got hs r \<Longrightarrow> length r < length buf"
proof (induction buf arbitrary: hs rule: read_headers.induct)
  case (1 buf)
  from "1.prems" obtain l rest where rl: "read_line buf = Some (l, rest)"
    by (subst (asm) read_headers.simps) (auto split: option.splits)
  show ?case
  proof (cases "l = []")
    case True
    with rl "1.prems" show ?thesis
      by (subst (asm) read_headers.simps) (auto dest: read_line_shorter)
  next
    case False
    with rl "1.prems" obtain h hs' where
      hl: "header_line l = Some h" and rec: "read_headers rest = Got hs' r"
      by (subst (asm) read_headers.simps) (auto split: option.splits stage.splits)
    from "1.IH" [OF rl refl False hl rec] read_line_shorter [OF rl]
    show ?thesis by simp
  qed
qed


lemma read_headers_append:
  "read_headers buf = Got hs r \<Longrightarrow> read_headers (buf @ x) = Got hs (r @ x)"
proof (induction buf arbitrary: hs rule: read_headers.induct)
  case (1 buf)
  from "1.prems" obtain l rest where rl: "read_line buf = Some (l, rest)"
    by (subst (asm) read_headers.simps) (auto split: option.splits)
  note rl' = read_line_append [OF rl, of x]
  show ?case
  proof (cases "l = []")
    case True
    with rl "1.prems" have "hs = []" "r = rest"
      by (subst (asm) read_headers.simps; simp)+
    with True rl' show ?thesis
      by (subst read_headers.simps) simp
  next
    case False
    with rl "1.prems" obtain h hs' where
      hl: "header_line l = Some h" and rec: "read_headers rest = Got hs' r" and hs: "hs = h # hs'"
      by (subst (asm) read_headers.simps) (auto split: option.splits stage.splits)
    from "1.IH" [OF rl refl False hl rec] False hl hs rl'
    show ?thesis by (subst read_headers.simps) simp
  qed
qed

lemma read_headers_suffix: "read_headers buf = Got hs r \<Longrightarrow> \<exists>p. buf = p @ r"
proof (induction buf arbitrary: hs rule: read_headers.induct)
  case (1 buf)
  from "1.prems" obtain l rest where rl: "read_line buf = Some (l, rest)"
    by (subst (asm) read_headers.simps) (auto split: option.splits)
  from read_line_decomp [OF rl] have dec: "buf = (l @ [CHR 0x0D, CHR 0x0A]) @ rest" by simp
  show ?case
  proof (cases "l = []")
    case True
    with rl "1.prems" have "r = rest"
      by (subst (asm) read_headers.simps) simp
    with dec show ?thesis by blast
  next
    case False
    with rl "1.prems" obtain h hs' where
      hl: "header_line l = Some h" and rec: "read_headers rest = Got hs' r"
      by (subst (asm) read_headers.simps) (auto split: option.splits stage.splits)
    from "1.IH" [OF rl refl False hl rec] obtain p where "rest = p @ r" by blast
    with dec have "buf = ((l @ [CHR 0x0D, CHR 0x0A]) @ p) @ r" by simp
    then show ?thesis by blast
  qed
qed

lemma read_chunks_cases:
  assumes "read_chunks buf = Got cs r"
  obtains (last) l rest where "read_line buf = Some (l, rest)" "parse_hex l = Some 0"
      "rest = CHR 0x0D # CHR 0x0A # r" "cs = []"
  | (chunk) l rest n r1 cs' where "read_line buf = Some (l, rest)" "parse_hex l = Some n"
      "n \<noteq> 0" "\<not> length rest < n" "drop n rest = CHR 0x0D # CHR 0x0A # r1"
      "read_chunks r1 = Got cs' r" "cs = take n rest # cs'"
  using assms
  by (subst (asm) read_chunks.simps)
     (auto split: option.splits stage.splits if_splits simp: expect_crlf_Got)

lemma read_chunks_suffix: "read_chunks buf = Got cs r \<Longrightarrow> \<exists>p. p \<noteq> [] \<and> buf = p @ r"
proof (induction buf arbitrary: cs rule: read_chunks.induct)
  case (1 buf)
  from "1.prems" show ?case
  proof (cases rule: read_chunks_cases)
    case (last l rest)
    from read_line_decomp [OF last(1)] last(3)
    have "buf = (l @ [CHR 0x0D, CHR 0x0A, CHR 0x0D, CHR 0x0A]) @ r" by simp
    then show ?thesis by blast
  next
    case (chunk l rest n r1 cs')
    have e: "expect_crlf (drop n rest) = Got () r1"
      using chunk(5) by (simp add: expect_crlf_Got)
    from "1.IH" [OF chunk(1) refl chunk(2,3,4) e chunk(6)]
    obtain p where p: "r1 = p @ r" by blast
    have "rest = take n rest @ drop n rest" by simp
    with chunk(5) p have "rest = (take n rest @ CHR 0x0D # CHR 0x0A # p) @ r" by simp
    with read_line_decomp [OF chunk(1)]
    have "buf = (l @ CHR 0x0D # CHR 0x0A # take n rest @ CHR 0x0D # CHR 0x0A # p) @ r"
      by (metis append.assoc append_Cons)
    then show ?thesis by blast
  qed
qed

lemma read_chunks_append:
  "read_chunks buf = Got cs r \<Longrightarrow> read_chunks (buf @ x) = Got cs (r @ x)"
proof (induction buf arbitrary: cs rule: read_chunks.induct)
  case (1 buf)
  from "1.prems" show ?case
  proof (cases rule: read_chunks_cases)
    case (last l rest)
    with read_line_append [OF last(1), of x] show ?thesis
      by (subst read_chunks.simps) simp
  next
    case (chunk l rest n r1 cs')
    have e: "expect_crlf (drop n rest) = Got () r1"
      using chunk(5) by (simp add: expect_crlf_Got)
    note IH = "1.IH" [OF chunk(1) refl chunk(2,3,4) e chunk(6)]
    have "expect_crlf (drop n (rest @ x)) = Got () (r1 @ x)"
      using chunk(4,5) by (simp add: expect_crlf_Got)
    with IH chunk read_line_append [OF chunk(1), of x] show ?thesis
      by (subst read_chunks.simps) simp
  qed
qed


lemma read_body_cases:
  assumes "read_body q hs buf = Got b r"
  obtains (chunked) cs where "framing_of q hs = Chunked" "read_chunks buf = Got cs r"
      "b = concat cs"
  | (sized) n where "framing_of q hs = ContentLength n" "\<not> length buf < n" "r = drop n buf"
      "b = take n buf"
  | (none) "framing_of q hs = NoBody" "r = buf" "b = []"
  using assms
  by (auto simp: read_body_def split: framing.splits if_splits stage.splits)

lemma read_body_suffix:
  assumes "read_body q hs buf = Got b r"
  shows "\<exists>p. buf = p @ r"
  using assms
proof (cases rule: read_body_cases)
  case (chunked cs)
  then show ?thesis using read_chunks_suffix by blast
next
  case (sized n)
  have "buf = take n buf @ drop n buf" by simp
  with sized show ?thesis by blast
next
  case none
  then show ?thesis by simp
qed

lemma read_body_append:
  assumes "read_body q hs buf = Got b r"
  shows "read_body q hs (buf @ x) = Got b (r @ x)"
  using assms
proof (cases rule: read_body_cases)
  case (chunked cs)
  with read_chunks_append [OF chunked(2), of x] show ?thesis
    by (simp add: read_body_def)
next
  case (sized n)
  then show ?thesis by (simp add: read_body_def)
next
  case none
  then show ?thesis by (simp add: read_body_def)
qed

lemma parse_request_Complete:
  assumes "parse_request buf = Complete m n"
  shows "0 < n \<and> n \<le> length buf \<and> msg m = take n buf"
proof -
  from assms obtain l rest mtv hs rest' b rest'' where
    rl: "read_line buf = Some (l, rest)" and
    rh: "read_headers rest = Got hs rest'" and
    rb: "read_body True hs rest' = Got b rest''" and
    n: "n = length buf - length rest''" and m: "msg m = take n buf"
    by (auto simp: parse_request_def Let_def split: option.splits stage.splits)
  from read_body_suffix [OF rb] have "length rest'' \<le> length rest'" by auto
  with read_headers_shorter [OF rh] read_line_shorter [OF rl] n m show ?thesis by simp
qed

lemma parse_response_Complete:
  assumes "parse_response buf q = Complete m n"
  shows "0 < n \<and> n \<le> length buf \<and> msg m = take n buf \<and> length (msg m) = n"
proof -
  from assms obtain l rest hs rest' b rest'' where
    rl: "read_line buf = Some (l, rest)" and
    rh: "read_headers rest = Got hs rest'" and
    rb: "read_body False hs rest' = Got b rest''" and
    n: "n = length buf - length rest''" and m: "msg m = take n buf"
    by (auto simp: parse_response_def Let_def split: option.splits stage.splits)
  from read_body_suffix [OF rb] have "length rest'' \<le> length rest'" by auto
  with read_headers_shorter [OF rh] read_line_shorter [OF rl] n m show ?thesis by simp
qed

lemma parse_request_append:
  assumes "parse_request buf = Complete m n"
  shows "parse_request (buf @ x) = Complete m n"
proof -
  from assms obtain l rest mm t v hs rest' b rest'' where
    rl: "read_line buf = Some (l, rest)" and
    ql: "request_line l = Some (mm, t, v)" and
    rh: "read_headers rest = Got hs rest'" and
    rb: "read_body True hs rest' = Got b rest''" and
    n: "n = length buf - length rest''" and
    m: "m = \<lparr>req_method = mm, target = t, version = v, headers = hs, body = b, msg = take n buf\<rparr>"
    by (auto simp: parse_request_def Let_def split: option.splits stage.splits)
  from parse_request_Complete [OF assms] have "n \<le> length buf" by simp
  with n m read_line_append [OF rl, of x] ql read_headers_append [OF rh, of x]
       read_body_append [OF rb, of x]
  show ?thesis by (simp add: parse_request_def Let_def)
qed

subsection \<open>Pipelined requests\<close>

text \<open>
  Modelled from the spec: the parser is invoked again on what a complete message left,
  until it needs more bytes or fails. The result is the complete requests in order, the
  reason of the failure if there was one, and the bytes left in the buffer.
\<close>

function feed :: "string \<Rightarrow> message list \<times> string option \<times> string" where
  "feed buf =
     (case parse_request buf of
        Incomplete \<Rightarrow> ([], None, buf)
      | Malformed e \<Rightarrow> ([], Some e, buf)
      | Complete m n \<Rightarrow> (case feed (drop n buf) of (ms, e, rest) \<Rightarrow> (m # ms, e, rest)))"
  by pat_completeness auto
termination
  by (relation "measure length") (auto dest!: parse_request_Complete)

declare feed.simps [simp del]


section \<open>Numbers, chunks and start lines\<close>

lemma hex_val_hex_digit: "d < 16 \<Longrightarrow> hex_val (hex_digit d) = Some d"
proof -
  assume "d < 16"
  then have "d = 0 \<or> d = 1 \<or> d = 2 \<or> d = 3 \<or> d = 4 \<or> d = 5 \<or> d = 6 \<or> d = 7 \<or> d = 8
      \<or> d = 9 \<or> d = 10 \<or> d = 11 \<or> d = 12 \<or> d = 13 \<or> d = 14 \<or> d = 15"
    by arith
  then show ?thesis
    by (elim disjE) (simp_all add: hex_val_def hex_digit_def)
qed

lemma number_acc_snoc:
  "number_acc base a (xs @ [c]) =
     (case number_acc base a xs of
        None \<Rightarrow> None
      | Some v \<Rightarrow> (case hex_val c of
                    None \<Rightarrow> None
                  | Some d \<Rightarrow> if d < base then Some (v * base + d) else None))"
  by (induction xs arbitrary: a) (auto split: option.splits)

lemma number_acc_to_hex: "number_acc 16 0 (to_hex n) = Some n"
proof (induction n rule: to_hex.induct)
  case (1 n)
  show ?case
  proof (cases "n < 16")
    case True
    then show ?thesis by (subst to_hex.simps) (simp add: hex_val_hex_digit)
  next
    case False
    with "1.IH" show ?thesis
      by (subst to_hex.simps) (simp add: number_acc_snoc hex_val_hex_digit)
  qed
qed

lemma to_hex_not_Nil: "to_hex n \<noteq> []"
  by (subst to_hex.simps) simp

lemma parse_hex_to_hex: "parse_hex (to_hex n) = Some n"
  by (simp add: parse_hex_def to_hex_not_Nil number_acc_to_hex)

lemma hex_digit_not_cr: "d < 16 \<Longrightarrow> hex_digit d \<noteq> CHR 0x0D"
proof -
  assume "d < 16"
  then have "d = 0 \<or> d = 1 \<or> d = 2 \<or> d = 3 \<or> d = 4 \<or> d = 5 \<or> d = 6 \<or> d = 7 \<or> d = 8
      \<or> d = 9 \<or> d = 10 \<or> d = 11 \<or> d = 12 \<or> d = 13 \<or> d = 14 \<or> d = 15"
    by arith
  then show ?thesis
    by (elim disjE) (simp_all add: hex_digit_def)
qed

lemma to_hex_no_cr: "CHR 0x0D \<notin> set (to_hex n)"
proof (induction n rule: to_hex.induct)
  case (1 n)
  show ?case
  proof (cases "n < 16")
    case True
    then show ?thesis using hex_digit_not_cr [of n] by (subst to_hex.simps) auto
  next
    case False
    with "1.IH" hex_digit_not_cr [of "n mod 16"] show ?thesis
      by (subst to_hex.simps) auto
  qed
qed

lemma read_chunks_terminator:
  "read_chunks (CHR ''0'' # CHR 0x0D # CHR 0x0A # CHR 0x0D # CHR 0x0A # x) = Got [] x"
  by (subst read_chunks.simps) (simp add: parse_hex_def hex_val_def)

lemma read_chunks_chunked_body:
  "read_chunks (chunked_body b @ x) = Got (if b = [] then [] else [b]) x"
proof (cases "b = []")
  case True
  then show ?thesis by (simp add: chunked_body_def read_chunks_terminator)
next
  case False
  have "read_line (to_hex (length b) @ CHR 0x0D # CHR 0x0A
            # b @ CHR 0x0D # CHR 0x0A # CHR ''0'' # CHR 0x0D # CHR 0x0A # CHR 0x0D # CHR 0x0A # x)
        = Some (to_hex (length b),
            b @ CHR 0x0D # CHR 0x0A # CHR ''0'' # CHR 0x0D # CHR 0x0A # CHR 0x0D # CHR 0x0A # x)"
    by (rule read_line_no_cr) (rule to_hex_no_cr)
  with False show ?thesis
    by (subst read_chunks.simps)
       (simp add: chunked_body_def parse_hex_to_hex read_chunks_terminator)
qed

lemma length_make_body: "length (make_body n) = n"
  by (simp add: make_body_def)

lemma fields_not_Nil: "fields s \<noteq> []"
  by (induction s) (auto split: list.splits)

lemma fields_no_space: "CHR '' '' \<notin> set a \<Longrightarrow> fields a = [a]"
  by (induction a) auto

lemma fields_space: "CHR '' '' \<notin> set a \<Longrightarrow> fields (a @ CHR '' '' # b) = a # fields b"
  by (induction a) auto

lemma tab_not_token: "CHR 0x09 \<in> set a \<Longrightarrow> \<not> is_token a"
proof -
  have "\<not> is_tchar (CHR 0x09)"
    by (simp add: is_tchar_def is_digit_def is_alpha_def)
  then show "CHR 0x09 \<in> set a \<Longrightarrow> \<not> is_token a"
    by (auto simp: is_token_def list_all_iff)
qed

lemma request_line_tab:
  assumes line: "l @ CHR 0x0D # CHR 0x0A # r = a @ CHR '' '' # b"
      and tab: "CHR 0x09 \<in> set a" and nosp: "CHR '' '' \<notin> set a"
  shows "request_line l = None"
proof -
  from line obtain us where
    "(l = a @ us \<and> us @ CHR 0x0D # CHR 0x0A # r = CHR '' '' # b)
     \<or> (l @ us = a \<and> CHR 0x0D # CHR 0x0A # r = us @ CHR '' '' # b)"
    by (auto simp: append_eq_append_conv2)
  then show ?thesis
  proof
    assume c: "l = a @ us \<and> us @ CHR 0x0D # CHR 0x0A # r = CHR '' '' # b"
    then obtain us' where "us = CHR '' '' # us'" by (cases us) auto
    with c have "fields l = a # fields us'" using nosp by (simp add: fields_space)
    with tab_not_token [OF tab] show ?thesis
      by (auto simp: request_line_def split: list.splits)
  next
    assume c: "l @ us = a \<and> CHR 0x0D # CHR 0x0A # r = us @ CHR '' '' # b"
    with nosp have "CHR '' '' \<notin> set l" by auto
    then have "fields l = [l]" by (rule fields_no_space)
    then show ?thesis by (simp add: request_line_def)
  qed
qed

lemma parse_request_tab:
  assumes "read_line (a @ CHR '' '' # b) \<noteq> None"
      and "CHR 0x09 \<in> set a" and "CHR '' '' \<notin> set a"
  shows "parse_request (a @ CHR '' '' # b) = Malformed ''bad start line''"
proof -
  from assms(1) obtain l r where rl: "read_line (a @ CHR '' '' # b) = Some (l, r)" by auto
  from read_line_decomp [OF rl] have "l @ CHR 0x0D # CHR 0x0A # r = a @ CHR '' '' # b" by simp
  from request_line_tab [OF this assms(2,3)] rl show ?thesis
    by (simp add: parse_request_def)
qed


section \<open>Properties of the store and of the polling loop\<close>

lemma wait_loop_Some:
  "wait_loop self timeout t0 polls k0 = Some (b, k, h') \<longleftrightarrow>
     (\<exists>i<length polls. k = k0 + i \<and> h' = fst (polls ! i)
        \<and> (\<forall>j<i. quiet self timeout t0 (polls ! j))
        \<and> b = (length (responses h') \<noteq> nr (objs h' self))
        \<and> (b \<or> snd (polls ! i) - t0 > timeout))"
proof (induction polls arbitrary: k0)
  case Nil
  show ?case by simp
next
  case (Cons p ps)
  obtain h t where p: "p = (h, t)" by (cases p)
  show ?case
  proof (cases "length (responses h) = nr (objs h self)")
    case False
    then show ?thesis
      by (auto simp: p Ex_less_Suc2 All_less_Suc2 quiet_def)
  next
    case eq: True
    show ?thesis
    proof (cases "t - t0 > timeout")
      case True
      with eq show ?thesis
        by (auto simp: p Ex_less_Suc2 All_less_Suc2 quiet_def)
    next
      case False
      with eq have "wait_loop self timeout t0 (p # ps) k0 = wait_loop self timeout t0 ps (Suc k0)"
        by (simp add: p)
      with eq False show ?thesis
        by (auto simp: Cons.IH p Ex_less_Suc2 All_less_Suc2 quiet_def)
    qed
  qed
qed

lemma wait_loop_None:
  "wait_loop self timeout t0 polls k0 = None \<longleftrightarrow> list_all (quiet self timeout t0) polls"
  by (induction polls arbitrary: k0) (auto simp: quiet_def split: if_splits)


lemma wait_loop_unanswered:
  assumes "list_all (\<lambda>p. length (responses (fst p)) = nr (objs (fst p) self)) polls"
      and "\<not> list_all (\<lambda>p. \<not> snd p - t0 > timeout) polls"
  shows "\<exists>k h'. wait_loop self timeout t0 polls k0 = Some (False, k, h')"
  using assms
  by (induction polls arbitrary: k0) auto

lemma upd_same: "f (objs h self) = objs h self \<Longrightarrow> upd h self f = h"
  by (simp add: upd_def)

lemma upd_upd: "upd (upd h self f) self g = upd h self (\<lambda>c. g (f c))"
  by (simp add: upd_def)

lemma objs_upd: "objs (upd h self f) i = (if i = self then f (objs h self) else objs h i)"
  by (simp add: upd_def)

lemma responses_upd: "responses (upd h self f) = responses h"
  by (simp add: upd_def)

section \<open>The messages of the tests, parsed; feeding fragments\<close>

lemma Request_first: "Request test_06_first = Inr first_request"
  by code_simp

lemma Request_next: "Request next_request_text = Inr next_request"
  by code_simp

lemma Response_ok: "Response ok_response ''GET'' = Inr ok_message"
  by code_simp

lemma Response_ok_twice: "Response (ok_response @ ok_response) ''GET'' = Inr ok_message"
  by code_simp

lemma length_ok: "length (msg ok_message) = 38" "length ok_response = 38"
  by (simp_all add: ok_message_def ok_response_def)

lemma ok_prefixes:
  "list_all (\<lambda>k. Response (take k ok_response) ''GET'' = Inl IncompliteMessage)
     [1..<length ok_response]"
  by code_simp

lemma ready_eq:
  "ready = upd (start new_heap 0) 0
     (\<lambda>c. c\<lparr>nr := 0, request := Some first_request, request_buffer := test_06_first\<rparr>)"
  by (simp add: ready_def make_request_def base_make_request_def Request_first upd_upd
      responses_upd start_def new_heap_def)

lemma ready_fields:
  "request (objs ready 0) = Some first_request" "response_buffer (objs ready 0) = []"
  "state (objs ready 0) = Started" "responses ready = []" "nr (objs ready 0) = 0"
  "request_buffer (objs ready 0) = test_06_first"
  by (simp_all add: ready_eq objs_upd responses_upd start_def new_heap_def new_client_def)

lemma recieve_response_upd:
  "recieve_response (upd h self (\<lambda>c. c\<lparr>response_buffer := x\<rparr>)) self r =
     upd (recieve_response h self r) self (\<lambda>c. c\<lparr>response_buffer := x\<rparr>)"
proof -
  have eq: "(objs h self)\<lparr>response_buffer := x, last_response := Some r\<rparr> =
        (objs h self)\<lparr>last_response := Some r, response_buffer := x\<rparr>"
    by (rule client.equality) simp_all
  show ?thesis
    by (simp add: recieve_response_def upd_def eq)
qed

lemma handle_read_Incomplete:
  assumes "request (objs h self) = Some rq"
      and "response_buffer (objs h self) @ data \<noteq> []"
      and "P (response_buffer (objs h self) @ data) (req_method rq) = Inl IncompliteMessage"
  shows "handle_read P h self data =
           (upd h self (\<lambda>c. c\<lparr>response_buffer := response_buffer (objs h self) @ data\<rparr>), Inr ())"
  using assms by (auto simp: handle_read_def Let_def objs_upd)

lemma handle_read_Complete:
  assumes "request (objs h self) = Some rq"
      and "response_buffer (objs h self) @ data \<noteq> []"
      and "P (response_buffer (objs h self) @ data) (req_method rq) = Inr r"
  shows "handle_read P h self data =
           (let rest = drop (length (msg r)) (response_buffer (objs h self) @ data)
            in if rest \<noteq> []
               then (upd h self (\<lambda>c. c\<lparr>response_buffer := rest\<rparr>),
                     Inl (ParseError (garbage_text rest)))
               else (upd (recieve_response h self r) self (\<lambda>c. c\<lparr>response_buffer := []\<rparr>),
                     Inr ()))"
  using assms
  by (auto simp: handle_read_def Let_def objs_upd upd_upd recieve_response_upd)

lemma handle_reads_fragments:
  assumes whole: "P B m = Inr r" "length (msg r) = length B"
      and prefixes: "list_all (\<lambda>k. P (take k B) m = Inl IncompliteMessage) [1..<length B]"
  shows "request (objs h self) = Some rq \<Longrightarrow> req_method rq = m \<Longrightarrow>
         response_buffer (objs h self) @ concat frags = B \<Longrightarrow> [] \<notin> set frags \<Longrightarrow>
         frags \<noteq> [] \<Longrightarrow>
         handle_reads P h self frags =
           (upd (recieve_response h self r) self (\<lambda>c. c\<lparr>response_buffer := []\<rparr>), Inr ())"
proof (induction frags arbitrary: h)
  case Nil
  then show ?case by simp
next
  case (Cons d ds)
  let ?buf = "response_buffer (objs h self) @ d"
  from Cons.prems have d: "d \<noteq> []" and ne: "?buf \<noteq> []" by auto
  show ?case
  proof (cases "ds = []")
    case True
    with Cons.prems have B: "?buf = B" by simp
    with whole Cons.prems(2) have "P ?buf (req_method rq) = Inr r" by simp
    from handle_read_Complete [of h self rq d P r, OF Cons.prems(1) ne this] B whole(2) True
    show ?thesis by simp
  next
    case False
    with Cons.prems(4) have "concat ds \<noteq> []" by (cases ds) auto
    with Cons.prems(3) have len: "length ?buf < length B" and tk: "take (length ?buf) B = ?buf"
      by (auto simp flip: Cons.prems(3))
    from d have "1 \<le> length ?buf" by (cases d) simp_all
    with len have "length ?buf \<in> set [1..<length B]" by (simp del: length_append)
    with prefixes have "P (take (length ?buf) B) m = Inl IncompliteMessage"
      unfolding list_all_iff by blast
    with tk Cons.prems(2) have inc: "P ?buf (req_method rq) = Inl IncompliteMessage" by simp
    let ?h = "upd h self (\<lambda>c. c\<lparr>response_buffer := ?buf\<rparr>)"
    note hr = handle_read_Incomplete [of h self rq d P, OF Cons.prems(1) ne inc]
    have "handle_reads P ?h self ds =
            (upd (recieve_response ?h self r) self (\<lambda>c. c\<lparr>response_buffer := []\<rparr>), Inr ())"
      using Cons.prems False by (intro Cons.IH) (simp_all add: objs_upd)
    with hr show ?thesis
      by (simp add: recieve_response_upd upd_upd)
  qed
qed

section \<open>The claims\<close>

text \<open>
  C1. For a client in the Started state, \<open>wait_for_response\<close> returns True exactly when a
  poll finds more responses recorded than \<open>nr\<close>, the count captured by \<open>make_request\<close>,
  before any poll has read the clock past the timeout. When it returns False, the poll that
  decided it read the clock past the timeout and found the count still equal to \<open>nr\<close>;
  nothing is raised and nothing is written. The number of sleeps returned is the
  index of the deciding poll: one \<open>time.sleep(0.01)\<close> after every poll that lets the loop
  go on. The call returns unless every poll given is quiet. The recorded responses are only
  appended to, so no poll finds fewer of them than \<open>nr\<close>.
\<close>

theorem wait_for_response_started:
  assumes started: "state (objs h self) = Started"
      and grows: "list_all (\<lambda>p. nr (objs (fst p) self) \<le> length (responses (fst p))) polls"
  shows "((\<exists>k h'. wait_for_response h self timeout t0 polls = Some (True, k, h')) \<longleftrightarrow>
            (\<exists>i<length polls.
                nr (objs (fst (polls ! i)) self) < length (responses (fst (polls ! i)))
                \<and> (\<forall>j<i. \<not> snd (polls ! j) - t0 > timeout)))
       \<and> (\<forall>k h'. wait_for_response h self timeout t0 polls = Some (False, k, h') \<longrightarrow>
            k < length polls \<and> h' = fst (polls ! k)
            \<and> length (responses h') = nr (objs h' self) \<and> snd (polls ! k) - t0 > timeout)
       \<and> (\<forall>b k h'. wait_for_response h self timeout t0 polls = Some (b, k, h') \<longrightarrow>
            k < length polls \<and> h' = fst (polls ! k)
            \<and> (\<forall>j<k. quiet self timeout t0 (polls ! j)))
       \<and> (wait_for_response h self timeout t0 polls = None \<longleftrightarrow>
            list_all (quiet self timeout t0) polls)"
proof -
  have w: "wait_for_response h self timeout t0 polls = wait_loop self timeout t0 polls 0"
    using started by (simp add: wait_for_response_def)
  have ge: "nr (objs (fst (polls ! i)) self) \<le> length (responses (fst (polls ! i)))"
    if "i < length polls" for i
    using grows that by (simp add: list_all_length)
  have "(\<exists>k h'. wait_loop self timeout t0 polls 0 = Some (True, k, h')) \<longleftrightarrow>
          (\<exists>i<length polls.
              nr (objs (fst (polls ! i)) self) < length (responses (fst (polls ! i)))
              \<and> (\<forall>j<i. \<not> snd (polls ! j) - t0 > timeout))" (is "?L \<longleftrightarrow> ?R")
  proof
    assume ?L
    then obtain k h' where "wait_loop self timeout t0 polls 0 = Some (True, k, h')" by blast
    then have k: "k < length polls" "h' = fst (polls ! k)"
        "\<forall>j<k. quiet self timeout t0 (polls ! j)"
        "length (responses h') \<noteq> nr (objs h' self)"
      by (auto simp: wait_loop_Some)
    from k(1,2,4) ge [of k]
    have "nr (objs (fst (polls ! k)) self) < length (responses (fst (polls ! k)))" by simp
    with k(1,3) show ?R by (auto simp: quiet_def)
  next
    assume ?R
    then obtain i where i: "i < length polls"
        "nr (objs (fst (polls ! i)) self) < length (responses (fst (polls ! i)))"
        "\<forall>j<i. \<not> snd (polls ! j) - t0 > timeout"
      by blast
    define A where
      "A n \<longleftrightarrow> nr (objs (fst (polls ! n)) self) < length (responses (fst (polls ! n)))" for n
    define m where "m = (LEAST n. A n)"
    have "A i" using i(2) by (simp add: A_def)
    then have Am: "A m" and mi: "m \<le> i" and least: "\<And>j. j < m \<Longrightarrow> \<not> A j"
      unfolding m_def by (auto intro: LeastI Least_le dest: not_less_Least)
    have "quiet self timeout t0 (polls ! j)" if "j < m" for j
    proof -
      from that mi i(1) have "j < length polls" "j < i" by simp_all
      with ge [of j] least [OF that] i(3) show ?thesis
        by (simp add: quiet_def A_def)
    qed
    with Am mi i(1)
    have "wait_loop self timeout t0 polls 0 = Some (True, m, fst (polls ! m))"
      by (subst wait_loop_Some) (auto simp: A_def intro!: exI [of _ m])
    then show ?L by blast
  qed
  then show ?thesis
    unfolding w by (auto simp: wait_loop_Some wait_loop_None)
qed

text \<open>Two runs with a timeout of 5: a response is seen at the third poll; and no response
  comes and the second poll reads the clock at 6.\<close>

theorem wait_for_response_started_witness:
  "state (objs ready 0) = Started
   \<and> list_all (\<lambda>p. nr (objs (fst p) 0) \<le> length (responses (fst p)))
        [(ready, 1::int), (ready, 3), (recieve_response ready 0 ok_message, 4)]
   \<and> wait_for_response ready 0 (5::int) 0
        [(ready, 1), (ready, 3), (recieve_response ready 0 ok_message, 4)]
      = Some (True, 2, recieve_response ready 0 ok_message)
   \<and> wait_for_response ready 0 (5::int) 0 [(ready, 1), (ready, 6)] = Some (False, 1, ready)"
proof -
  have 1: "state (objs ready 0) = Started"
    by (simp add: ready_fields)
  have 2: "list_all (\<lambda>p. nr (objs (fst p) 0) \<le> length (responses (fst p)))
        [(ready, 1::int), (ready, 3), (recieve_response ready 0 ok_message, 4)]"
    by (simp add: ready_fields recieve_response_def objs_upd responses_upd)
  have 3: "list_all (\<lambda>p. nr (objs (fst p) 0) \<le> length (responses (fst p)))
        [(ready, 1::int), (ready, 6)]"
    by (simp add: ready_fields)
  have a: "wait_for_response ready 0 (5::int) 0
        [(ready, 1), (ready, 3), (recieve_response ready 0 ok_message, 4)]
      = Some (True, 2, recieve_response ready 0 ok_message)"
    using wait_for_response_started [OF 1 2, of 5 0]
    by (simp add: wait_for_response_def ready_fields recieve_response_def objs_upd
        responses_upd)
  have b: "wait_for_response ready 0 (5::int) 0 [(ready, 1), (ready, 6)]
      = Some (False, 1, ready)"
    using wait_for_response_started [OF 1 3, of 5 0]
    by (simp add: wait_for_response_def ready_fields)
  from 1 2 a b show ?thesis by simp
qed

text \<open>
  C2. Each instance owns its own history: recording a response on one instance leaves the
  other instance's \<open>responses\<close>, \<open>last_response\<close> and \<open>nr\<close> unchanged. The code does
  otherwise for \<open>responses\<close>: it is one list for all instances. Two clients are started;
  client 0 records a response. The \<open>last_response\<close> and \<open>nr\<close> of client 1 stay as they
  were, but the list client 1 reads as \<open>self.responses\<close> has grown, and its
  \<open>wait_for_response\<close> returns True at the first poll though nothing was sent to it.
\<close>

theorem recieve_response_reaches_other_instance:
  "responses (start (start new_heap 0) 1) = []
   \<and> responses (recieve_response (start (start new_heap 0) 1) 0 ok_message) = [ok_message]
   \<and> last_response (objs (recieve_response (start (start new_heap 0) 1) 0 ok_message) 1) = None
   \<and> nr (objs (recieve_response (start (start new_heap 0) 1) 0 ok_message) 1) = 0
   \<and> map_option fst
        (wait_for_response (recieve_response (start (start new_heap 0) 1) 0 ok_message) 1
           (5::int) 0 [(recieve_response (start (start new_heap 0) 1) 0 ok_message, 0)])
      = Some True"
  by (simp add: wait_for_response_def recieve_response_def start_def objs_upd responses_upd
      new_heap_def new_client_def)

text \<open>
  C3. Fragmentation invariance, as the code has it. The claim fails for a byte sequence of
  more than one message: read in one piece, the two responses below raise the ParseError
  for garbage after the first and nothing is recorded; read one response at a time, both
  are recorded and nothing is raised.
\<close>

theorem fragmentation_changes_two_responses:
  "concat [ok_response, ok_response] = ok_response @ ok_response
   \<and> snd (handle_reads Response ready 0 [ok_response @ ok_response])
       = Inl (ParseError (garbage_text ok_response))
   \<and> responses (fst (handle_reads Response ready 0 [ok_response @ ok_response])) = []
   \<and> snd (handle_reads Response ready 0 [ok_response, ok_response]) = Inr ()
   \<and> responses (fst (handle_reads Response ready 0 [ok_response, ok_response]))
       = [ok_message, ok_message]"
proof -
  have ne: "ok_response \<noteq> []" by (simp add: ok_response_def)
  have m: "req_method first_request = ''GET''" by (simp add: first_request_def)
  have one: "handle_read Response ready 0 (ok_response @ ok_response) =
      (upd ready 0 (\<lambda>c. c\<lparr>response_buffer := ok_response\<rparr>),
       Inl (ParseError (garbage_text ok_response)))"
  proof -
    have 1: "response_buffer (objs ready 0) @ ok_response @ ok_response \<noteq> []"
      using ne by simp
    have 2: "Response (response_buffer (objs ready 0) @ ok_response @ ok_response)
        (req_method first_request) = Inr ok_message"
      by (simp add: ready_fields m Response_ok_twice)
    have 3: "drop (length (msg ok_message))
        (response_buffer (objs ready 0) @ ok_response @ ok_response) = ok_response"
      by (simp add: ready_fields ok_message_def)
    show ?thesis
      using handle_read_Complete [of ready 0 first_request "ok_response @ ok_response"
          Response ok_message, OF ready_fields(1) 1 2] ne
      unfolding Let_def 3 by simp
  qed
  have once: "handle_read Response h 0 ok_response =
      (upd (recieve_response h 0 ok_message) 0 (\<lambda>c. c\<lparr>response_buffer := []\<rparr>), Inr ())"
    if h: "request (objs h 0) = Some first_request" "response_buffer (objs h 0) = []" for h
  proof -
    have 1: "response_buffer (objs h 0) @ ok_response \<noteq> []"
      using ne by simp
    have 2: "Response (response_buffer (objs h 0) @ ok_response) (req_method first_request)
        = Inr ok_message"
      by (simp add: h m Response_ok)
    have 3: "drop (length (msg ok_message)) (response_buffer (objs h 0) @ ok_response) = []"
      by (simp add: h ok_message_def)
    show ?thesis
      using handle_read_Complete [of h 0 first_request ok_response Response ok_message,
          OF h(1) 1 2]
      unfolding Let_def 3 by simp
  qed
  let ?h = "upd (recieve_response ready 0 ok_message) 0 (\<lambda>c. c\<lparr>response_buffer := []\<rparr>)"
  have h: "request (objs ?h 0) = Some first_request" "response_buffer (objs ?h 0) = []"
    by (simp_all add: objs_upd recieve_response_def ready_fields)
  have first: "handle_reads Response ready 0 [ok_response @ ok_response] =
      (upd ready 0 (\<lambda>c. c\<lparr>response_buffer := ok_response\<rparr>),
       Inl (ParseError (garbage_text ok_response)))"
    by (simp add: one)
  have second: "handle_reads Response ready 0 [ok_response, ok_response] =
      (upd (recieve_response ?h 0 ok_message) 0 (\<lambda>c. c\<lparr>response_buffer := []\<rparr>), Inr ())"
    by (simp add: once [OF ready_fields(1,2)] once [OF h])
  show ?thesis
    unfolding first second
    by (simp add: responses_upd recieve_response_def ready_fields)
qed

text \<open>
  C3, amended. For a byte sequence \<open>B\<close> that is one message for the parser at hand (the
  parser returns a message of \<open>B\<close>'s length on \<open>B\<close> and raises IncompliteMessage on every
  shorter non-empty beginning of \<open>B\<close>), reading \<open>B\<close> in one piece and reading it in any
  non-empty fragments end in the same store, with that one response recorded, and raise
  nothing.
\<close>

theorem handle_reads_one_message:
  assumes request: "request (objs h self) = Some rq"
      and empty: "response_buffer (objs h self) = []"
      and whole: "P B (req_method rq) = Inr r" "length (msg r) = length B"
      and prefixes:
        "list_all (\<lambda>k. P (take k B) (req_method rq) = Inl IncompliteMessage) [1..<length B]"
      and frags: "concat frags = B" "[] \<notin> set frags" "frags \<noteq> []"
  shows "handle_reads P h self frags = handle_read P h self B
       \<and> handle_read P h self B =
           (upd (recieve_response h self r) self (\<lambda>c. c\<lparr>response_buffer := []\<rparr>), Inr ())"
proof -
  from frags have B: "B \<noteq> []" by (cases frags) auto
  have 1: "handle_reads P h self frags =
      (upd (recieve_response h self r) self (\<lambda>c. c\<lparr>response_buffer := []\<rparr>), Inr ())"
    using whole prefixes request refl _ frags(2,3)
    by (rule handle_reads_fragments) (simp add: empty frags(1))
  have 2: "handle_read P h self B =
      (upd (recieve_response h self r) self (\<lambda>c. c\<lparr>response_buffer := []\<rparr>), Inr ())"
    using handle_read_Complete [of h self rq B P r] request empty whole B by simp
  from 1 2 show ?thesis by simp
qed

theorem handle_reads_one_message_witness:
  "request (objs ready 0) = Some first_request
   \<and> response_buffer (objs ready 0) = []
   \<and> Response ok_response (req_method first_request) = Inr ok_message
   \<and> length (msg ok_message) = length ok_response
   \<and> list_all (\<lambda>k. Response (take k ok_response) (req_method first_request) = Inl IncompliteMessage)
        [1..<length ok_response]
   \<and> concat [take 1 ok_response, take 20 (drop 1 ok_response), drop 21 ok_response] = ok_response
   \<and> handle_reads Response ready 0
        [take 1 ok_response, take 20 (drop 1 ok_response), drop 21 ok_response]
       = handle_read Response ready 0 ok_response
   \<and> responses (fst (handle_read Response ready 0 ok_response)) = [ok_message]"
proof -
  have m: "req_method first_request = ''GET''" by (simp add: first_request_def)
  have 1: "Response ok_response (req_method first_request) = Inr ok_message"
    by (simp add: m Response_ok)
  have 2: "length (msg ok_message) = length ok_response" by (simp add: ok_message_def)
  have 3: "list_all (\<lambda>k. Response (take k ok_response) (req_method first_request)
             = Inl IncompliteMessage) [1..<length ok_response]"
    using ok_prefixes by (simp add: m)
  have 4: "concat [take 1 ok_response, take 20 (drop 1 ok_response), drop 21 ok_response]
      = ok_response"
    by (simp add: ok_response_def)
  have 5: "[] \<notin> set [take 1 ok_response, take 20 (drop 1 ok_response), drop 21 ok_response]"
    by (simp add: ok_response_def)
  note t = handle_reads_one_message [where P = Response and h = ready and self = 0
      and rq = first_request and B = ok_response and r = ok_message,
      OF ready_fields(1) ready_fields(2) 1 2 3 4 5]
  from t ready_fields(1,2) 1 2 3 4 show ?thesis
    by (simp add: responses_upd recieve_response_def ready_fields)
qed

text \<open>
  C4. Whenever the parser returns a complete response that is shorter than the client's
  read buffer, \<open>handle_read\<close> raises the ParseError for garbage after the response end,
  with the leftover bytes in its text. The parser is not asked about the leftover, the
  response is not recorded, and the leftover stays in the buffer. A run of reads stops at
  that exception.
\<close>

theorem handle_read_garbage:
  assumes "request (objs h self) = Some rq"
      and "P (response_buffer (objs h self) @ data) (req_method rq) = Inr r"
      and "length (msg r) < length (response_buffer (objs h self) @ data)"
  shows "handle_read P h self data =
           (upd h self (\<lambda>c. c\<lparr>response_buffer :=
                 drop (length (msg r)) (response_buffer (objs h self) @ data)\<rparr>),
            Inl (ParseError (garbage_text
                 (drop (length (msg r)) (response_buffer (objs h self) @ data)))))
       \<and> responses (fst (handle_read P h self data)) = responses h
       \<and> last_response (objs (fst (handle_read P h self data)) self)
           = last_response (objs h self)
       \<and> handle_reads P h self (data # later) = handle_read P h self data"
  using assms
  by (auto simp: handle_read_def Let_def objs_upd upd_upd responses_upd)

theorem handle_read_garbage_witness:
  "request (objs ready 0) = Some first_request
   \<and> Response (response_buffer (objs ready 0) @ ok_response @ ''x'') (req_method first_request)
       = Inr ok_message
   \<and> length (msg ok_message) < length (response_buffer (objs ready 0) @ ok_response @ ''x'')
   \<and> snd (handle_read Response ready 0 (ok_response @ ''x''))
       = Inl (ParseError (garbage_text ''x''))
   \<and> responses (fst (handle_read Response ready 0 (ok_response @ ''x''))) = []"
proof -
  have p: "Response (ok_response @ ''x'') ''GET'' = Inr ok_message"
    by code_simp
  have m: "req_method first_request = ''GET''" by (simp add: first_request_def)
  have 2: "Response (response_buffer (objs ready 0) @ ok_response @ ''x'')
      (req_method first_request) = Inr ok_message"
    by (simp add: ready_fields m p)
  have 3: "length (msg ok_message) < length (response_buffer (objs ready 0) @ ok_response @ ''x'')"
    by (simp add: ready_fields ok_message_def)
  have 4: "drop (length (msg ok_message)) (response_buffer (objs ready 0) @ ok_response @ ''x'')
      = ''x''"
    by (simp add: ready_fields ok_message_def)
  note t = handle_read_garbage [of ready 0 first_request Response "ok_response @ ''x''"
      ok_message, OF ready_fields(1) 2 3, unfolded 4]
  from t ready_fields(1) 2 3 show ?thesis
    by (simp add: ready_fields responses_upd)
qed

text \<open>
  C5. The chunked construction of \<open>make_chain\<close> and the chunked decoding of the parser:
  for the bodies \<open>make_body\<close> builds of length 0, 40 and 131072, and for every other body,
  decoding the encoded body gives the body back and leaves no byte; the body of length zero
  is encoded as the terminator alone and decodes to no chunk and the empty body. The empty
  body that \<open>make_empty_body_chain\<close> frames with \<open>Content-Length: 0\<close> decodes to the
  empty body as well.
\<close>

theorem chunked_round_trip:
  "length (make_body 0) = 0 \<and> length (make_body 40) = 40 \<and> length (make_body 131072) = 131072
   \<and> read_body False [(''Transfer-Encoding'', ''chunked'')] (chunked_body (make_body 0))
       = Got (make_body 0) []
   \<and> read_body False [(''Transfer-Encoding'', ''chunked'')] (chunked_body (make_body 40))
       = Got (make_body 40) []
   \<and> read_body False [(''Transfer-Encoding'', ''chunked'')] (chunked_body (make_body 131072))
       = Got (make_body 131072) []
   \<and> read_chunks (chunked_body (make_body 0)) = Got [] []
   \<and> make_body 0 = []
   \<and> read_body False [(''Content-Length'', ''0'')] (make_body 0) = Got [] []
   \<and> (\<forall>b. read_body False [(''Transfer-Encoding'', ''chunked'')] (chunked_body b) = Got b []
          \<and> read_chunks (chunked_body b) = Got (if b = [] then [] else [b]) [])"
proof -
  have f: "framing_of False [(''Transfer-Encoding'', ''chunked'')] = Chunked"
    by (simp add: framing_of_def lower_def)
  have c: "read_chunks (chunked_body b) = Got (if b = [] then [] else [b]) []" for b
    using read_chunks_chunked_body [of b "[]"] by simp
  have b: "read_body False [(''Transfer-Encoding'', ''chunked'')] (chunked_body b) = Got b []"
    for b
    by (simp add: read_body_def f c)
  have z: "read_body False [(''Content-Length'', ''0'')] [] = Got [] []"
    by (simp add: read_body_def framing_of_def lower_def parse_dec_def hex_val_def)
  have e: "make_body 0 = []" by (simp add: make_body_def)
  show ?thesis
    by (simp add: b c length_make_body e z)
qed

text \<open>
  C6. Enqueuing appends to the write queue. The claim fails: the client has one write
  buffer and \<open>make_request\<close> assigns it. A client whose first request is still unsent
  (\<open>writable\<close> holds) makes a second request; the buffer then holds the second request
  alone, not the first followed by the second.
\<close>

theorem make_request_drops_unsent:
  "writable ready 0
   \<and> request_buffer (objs ready 0) = test_06_first
   \<and> snd (make_request Request ready 0 next_request_text) = Inr ()
   \<and> request_buffer (objs (fst (make_request Request ready 0 next_request_text)) 0)
       = next_request_text
   \<and> request_buffer (objs (fst (make_request Request ready 0 next_request_text)) 0)
       \<noteq> test_06_first @ next_request_text"
proof -
  have "test_06_first \<noteq> []" by (simp add: test_06_first_def)
  then show ?thesis
    by (simp add: writable_def ready_fields make_request_def base_make_request_def
        Request_next objs_upd)
qed

text \<open>
  C6, amended. \<open>make_request\<close> replaces the write buffer: when the request text parses,
  the buffer holds exactly that text afterwards, whatever it held before; \<open>request\<close> is the
  parsed request and \<open>nr\<close> the number of responses recorded so far, and \<open>writable\<close> holds
  exactly when the text is not empty. When the text does not parse, the exception is raised
  after \<open>nr\<close> is set and the buffer is left as it was.
\<close>

theorem make_request_replaces:
  "(\<forall>rq. Rq text = Inr rq \<longrightarrow>
      make_request Rq h self text =
        (upd h self (\<lambda>c. c\<lparr>nr := length (responses h), request := Some rq,
                             request_buffer := text\<rparr>), Inr ())
      \<and> request_buffer (objs (fst (make_request Rq h self text)) self) = text
      \<and> writable (fst (make_request Rq h self text)) self = (text \<noteq> []))
   \<and> (\<forall>e. Rq text = Inl e \<longrightarrow>
      make_request Rq h self text = (upd h self (\<lambda>c. c\<lparr>nr := length (responses h)\<rparr>), Inl e))"
  by (simp add: make_request_def base_make_request_def upd_upd objs_upd writable_def)

theorem make_request_replaces_witness:
  "Request test_06_first = Inr first_request
   \<and> request_buffer (objs (start new_heap 0) 0) = []
   \<and> request_buffer (objs (fst (make_request Request (start new_heap 0) 0 test_06_first)) 0)
       = test_06_first
   \<and> Request test_06_second = Inl (ParseError ''bad start line'')
   \<and> request_buffer (objs (fst (make_request Request ready 0 test_06_second)) 0)
       = test_06_first"
proof -
  have 2: "Request test_06_second = Inl (ParseError ''bad start line'')"
    by code_simp
  from make_request_replaces [of Request test_06_first "start new_heap 0" 0]
       make_request_replaces [of Request test_06_second ready 0]
       Request_first 2
  show ?thesis
    by (simp add: objs_upd ready_fields start_def new_heap_def new_client_def)
qed

text \<open>
  C7. The parse result and the read buffer. When the parser raises IncompliteMessage, the
  buffer keeps every byte read so far and no response is recorded. When it returns a
  response, the buffer afterwards is the old buffer without its first \<open>len(response.msg)\<close>
  bytes. For the parser of the specification, a complete result consumes at least one byte
  and at most the length of the buffer, the text of the message is those first bytes, and
  the exception or message the client sees is the one that result stands for.
\<close>

theorem handle_read_parse_result:
  assumes "request (objs h self) = Some rq"
      and "buf = response_buffer (objs h self) @ data" and "buf \<noteq> []"
  shows "(P buf (req_method rq) = Inl IncompliteMessage \<longrightarrow>
            handle_read P h self data = (upd h self (\<lambda>c. c\<lparr>response_buffer := buf\<rparr>), Inr ())
            \<and> responses (fst (handle_read P h self data)) = responses h)
       \<and> (\<forall>r. P buf (req_method rq) = Inr r \<longrightarrow>
            response_buffer (objs (fst (handle_read P h self data)) self)
              = drop (length (msg r)) buf)
       \<and> (parse_response buf (req_method rq) = Incomplete \<longrightarrow>
            Response buf (req_method rq) = Inl IncompliteMessage)
       \<and> (\<forall>r n. parse_response buf (req_method rq) = Complete r n \<longrightarrow>
            Response buf (req_method rq) = Inr r \<and> length (msg r) = n \<and> 0 < n
            \<and> n \<le> length buf \<and> msg r = take n buf)"
proof -
  have 1: "P buf (req_method rq) = Inl IncompliteMessage \<longrightarrow>
            handle_read P h self data = (upd h self (\<lambda>c. c\<lparr>response_buffer := buf\<rparr>), Inr ())
            \<and> responses (fst (handle_read P h self data)) = responses h"
    using assms handle_read_Incomplete [of h self rq data P]
    by (simp add: responses_upd)
  have 2: "response_buffer (objs (fst (handle_read P h self data)) self)
              = drop (length (msg r)) buf" if "P buf (req_method rq) = Inr r" for r
    using assms that handle_read_Complete [of h self rq data P r]
    by (simp add: Let_def objs_upd)
  have 3: "Response buf (req_method rq) = Inr r \<and> length (msg r) = n \<and> 0 < n
            \<and> n \<le> length buf \<and> msg r = take n buf"
    if "parse_response buf (req_method rq) = Complete r n" for r n
    using parse_response_Complete [OF that] that
    by (simp add: Response_def raise_or_return_def)
  have 4: "parse_response buf (req_method rq) = Incomplete \<longrightarrow>
            Response buf (req_method rq) = Inl IncompliteMessage"
    by (simp add: Response_def raise_or_return_def)
  from 1 2 3 4 show ?thesis by blast
qed

theorem handle_read_parse_result_witness:
  "request (objs ready 0) = Some first_request
   \<and> ok_response \<noteq> []
   \<and> parse_response ok_response (req_method first_request) = Complete ok_message 38
   \<and> length ok_response = 38
   \<and> response_buffer (objs (fst (handle_read Response ready 0 ok_response)) 0) = []
   \<and> take 10 ok_response \<noteq> []
   \<and> Response (take 10 ok_response) (req_method first_request) = Inl IncompliteMessage
   \<and> response_buffer (objs (fst (handle_read Response ready 0 (take 10 ok_response))) 0)
       = take 10 ok_response
   \<and> responses (fst (handle_read Response ready 0 (take 10 ok_response))) = []"
proof -
  have m: "req_method first_request = ''GET''" by (simp add: first_request_def)
  have 1: "parse_response ok_response ''GET'' = Complete ok_message 38"
    by code_simp
  have 2: "Response (take 10 ok_response) ''GET'' = Inl IncompliteMessage"
    by code_simp
  have 3: "ok_response \<noteq> []" "take 10 ok_response \<noteq> []"
    by (simp_all add: ok_response_def)
  have 4: "ok_response = response_buffer (objs ready 0) @ ok_response"
      "take 10 ok_response = response_buffer (objs ready 0) @ take 10 ok_response"
    by (simp_all add: ready_fields)
  from handle_read_parse_result [of ready 0 first_request ok_response ok_response Response,
         OF ready_fields(1) 4(1) 3(1)]
       handle_read_parse_result [of ready 0 first_request "take 10 ok_response"
         "take 10 ok_response" Response, OF ready_fields(1) 4(2) 3(2)]
       1 2 3
  show ?thesis
    by (simp add: m ready_fields length_ok Response_ok objs_upd responses_upd)
qed

text \<open>
  C8. A well-formed request followed in the same buffer by a request whose method token
  holds a tab character: the parser of the specification yields the first request complete
  and then fails on the rest with a bad start line, so exactly one request is complete and
  the bytes of the second stay in the buffer. The second request is given by its method
  token, the bytes before its first space, and its start line is complete.
\<close>

theorem feed_rejects_only_second:
  assumes first: "parse_request R1 = Complete m (length R1)"
      and second: "R2 = a @ CHR '' '' # b"
      and tab: "CHR 0x09 \<in> set a" and nosp: "CHR '' '' \<notin> set a"
      and line: "read_line R2 \<noteq> None"
  shows "feed (R1 @ R2) = ([m], Some ''bad start line'', R2)
       \<and> parse_request (R1 @ R2) = Complete m (length R1)
       \<and> parse_request R2 = Malformed ''bad start line''"
proof -
  have 1: "parse_request (R1 @ R2) = Complete m (length R1)"
    using first by (rule parse_request_append)
  have 2: "parse_request R2 = Malformed ''bad start line''"
    unfolding second using line tab nosp unfolding second by (rule parse_request_tab)
  have "feed R2 = ([], Some ''bad start line'', R2)"
    by (subst feed.simps) (simp add: 2)
  with 1 2 show ?thesis
    by (subst feed.simps) simp
qed

theorem feed_rejects_only_second_witness:
  "parse_request test_06_first = Complete first_request (length test_06_first)
   \<and> test_06_second = (''POS'' @ [CHR 0x09] @ ''T'') @ CHR '' ''
        # (''/bbb HTTP/1.1'' @ [CHR 0x0D, CHR 0x0A] @ ''Host: localhost''
           @ [CHR 0x0D, CHR 0x0A, CHR 0x0D, CHR 0x0A])
   \<and> CHR 0x09 \<in> set (''POS'' @ [CHR 0x09] @ ''T'')
   \<and> CHR '' '' \<notin> set (''POS'' @ [CHR 0x09] @ ''T'')
   \<and> read_line test_06_second \<noteq> None
   \<and> feed (test_06_first @ test_06_second)
       = ([first_request], Some ''bad start line'', test_06_second)"
proof -
  have 1: "parse_request test_06_first = Complete first_request (length test_06_first)"
    by code_simp
  have 2: "test_06_second = (''POS'' @ [CHR 0x09] @ ''T'') @ CHR '' ''
        # (''/bbb HTTP/1.1'' @ [CHR 0x0D, CHR 0x0A] @ ''Host: localhost''
           @ [CHR 0x0D, CHR 0x0A, CHR 0x0D, CHR 0x0A])"
    by (simp add: test_06_second_def)
  have 3: "CHR 0x09 \<in> set (''POS'' @ [CHR 0x09] @ ''T'')"
    by simp
  have 4: "CHR '' '' \<notin> set (''POS'' @ [CHR 0x09] @ ''T'')"
    by simp
  have 5: "read_line test_06_second \<noteq> None"
    by code_simp
  from feed_rejects_only_second [OF 1 2 3 4 5] 1 2 3 4 5 show ?thesis
    by blast
qed

text \<open>
  C9. After an endpoint is stopped, any pending or later \<open>wait_for_response\<close> returns
  False. The claim fails for a pending call: the state is read once, on entry. Below, the
  call enters on a started client; before its first poll a response is recorded and the
  client is stopped; the call returns True.
\<close>

theorem pending_wait_ignores_stop:
  "state (objs ready 0) = Started
   \<and> state (objs (stop (recieve_response ready 0 ok_message) 0) 0) = Stopped
   \<and> wait_for_response ready 0 (5::int) 0 [(stop (recieve_response ready 0 ok_message) 0, 1)]
       = Some (True, 0, stop (recieve_response ready 0 ok_message) 0)"
  by (simp add: wait_for_response_def ready_fields stop_def recieve_response_def objs_upd
      responses_upd)

text \<open>
  C9, amended. A \<open>wait_for_response\<close> entered on a client whose state is not Started, as
  every call after the stop is, returns False at once: no poll, no sleep. A call that is
  pending, whatever the state its polls find, returns False when a poll reads the clock
  past the timeout, provided no poll before found the count of responses changed.
\<close>

theorem wait_for_response_not_started:
  "(state (objs h self) \<noteq> Started \<longrightarrow>
      wait_for_response h self timeout t0 polls = Some (False, 0, h))
   \<and> (list_all (\<lambda>p. length (responses (fst p)) = nr (objs (fst p) self)) polls
      \<and> \<not> list_all (\<lambda>p. \<not> snd p - t0 > timeout) polls \<longrightarrow>
      (\<exists>k h'. wait_for_response h self timeout t0 polls = Some (False, k, h')))"
  using wait_loop_unanswered [where self = self and polls = polls and ?t0.0 = t0
      and timeout = timeout and ?k0.0 = 0]
  by (auto simp: wait_for_response_def)

theorem wait_for_response_not_started_witness:
  "state (objs (stop ready 0) 0) \<noteq> Started
   \<and> wait_for_response (stop ready 0) 0 (5::int) 0 [(stop ready 0, 1)]
       = Some (False, 0, stop ready 0)
   \<and> list_all (\<lambda>p. length (responses (fst p)) = nr (objs (fst p) 0))
        [(ready, 1::int), (stop ready 0, 3), (stop ready 0, 6)]
   \<and> \<not> list_all (\<lambda>p. \<not> snd p - 0 > (5::int))
        [(ready, 1::int), (stop ready 0, 3), (stop ready 0, 6)]
   \<and> wait_for_response ready 0 (5::int) 0
        [(ready, 1::int), (stop ready 0, 3), (stop ready 0, 6)] = Some (False, 2, stop ready 0)"
  using wait_for_response_not_started [where h = "stop ready 0" and self = 0
          and timeout = "5::int" and ?t0.0 = 0 and polls = "[(stop ready 0, 1)]"]
        wait_for_response_not_started [where h = ready and self = 0
          and timeout = "5::int" and ?t0.0 = 0
          and polls = "[(ready, 1), (stop ready 0, 3), (stop ready 0, 6)]"]
  by (simp add: wait_for_response_def ready_fields stop_def objs_upd responses_upd)

text \<open>
  C10. When the socket delivers no byte and the read buffer is empty, \<open>handle_read\<close>
  returns at once: the store is unchanged, nothing is raised, and the result is the same
  for every parser, so the parser is not asked.
\<close>

theorem handle_read_nothing_received:
  assumes "response_buffer (objs h self) = []"
  shows "handle_read P h self [] = (h, Inr ())"
  using assms by (simp add: handle_read_def upd_same)

theorem handle_read_nothing_received_witness:
  "response_buffer (objs ready 0) = [] \<and> handle_read Response ready 0 [] = (ready, Inr ())"
  using handle_read_nothing_received [of ready 0 Response]
  by (simp add: ready_fields)

end
